theory Spec2Isabelle
  imports Main "HOL-Library.Char_ord" "HOL-Library.List_Lexorder" "HOL-Library.Product_Lexorder"
begin

section \<open>The persisted store\<close>

text \<open>
  The four tables that \<^verbatim>\<open>init_db\<close> creates in \<^verbatim>\<open>main.py\<close>.
  \<^item> \<^verbatim>\<open>users(id INTEGER PRIMARY KEY AUTOINCREMENT, email, password, stripe_customer_id,
    blocked_count INTEGER DEFAULT 0)\<close>: the rows in rowid order.
  \<^item> \<^verbatim>\<open>accounts(user_id, username, is_connected, PRIMARY KEY (user_id, username))\<close>: the
    rows in the order of the primary key, which is the order in which SQLite's scan of the
    primary-key index returns the rows of one user. \<^verbatim>\<open>is_connected\<close> is a \<^verbatim>\<open>BOOLEAN\<close> with
    default \<^verbatim>\<open>FALSE\<close>; Python reads 0 as false.
  \<^item> \<^verbatim>\<open>payment_history(id, user_id, amount, package, date)\<close>: the amount is kept as the
    integer number of cents that the payment processor reports.
  \<^item> \<^verbatim>\<open>daily_blocked_counts(user_id, date TEXT, blocked, PRIMARY KEY (user_id, date))\<close>:
    a map from the primary key to the \<^verbatim>\<open>blocked\<close> column. The table has no other column: in
    particular no time of the last write is stored.
  Python integers are unbounded, so the counters are of type \<^typ>\<open>int\<close>.
\<close>

record users_row =
  uid :: int
  email :: string
  password :: string
  stripe_customer_id :: "string option"
  blocked_count :: int

record accounts_row =
  account_user_id :: int
  username :: string
  is_connected :: bool

record payment_history_row =
  payment_user_id :: int
  amount :: int
  package :: string
  date_paid :: string

record store =
  users :: "users_row list"
  accounts :: "accounts_row list"
  payment_history :: "payment_history_row list"
  daily_blocked_counts :: "int \<times> string \<rightharpoonup> int"

section \<open>Clock values and calendar dates\<close>

text \<open>
  A value of Python's naive \<^verbatim>\<open>datetime\<close>, as \<^verbatim>\<open>datetime.utcnow()\<close> returns it. Years lie in
  1..9999, so \<^verbatim>\<open>date().isoformat()\<close> is always the ten characters \<^verbatim>\<open>YYYY-MM-DD\<close>.
\<close>

record pydatetime =
  year :: nat
  month :: nat
  day :: nat
  hour :: nat
  minute :: nat
  second :: nat
  microsecond :: nat

definition digit_char :: "nat \<Rightarrow> char" where
  "digit_char n = ''0123456789'' ! (n mod 10)"

definition pad2 :: "nat \<Rightarrow> string" where
  "pad2 n = [digit_char (n div 10), digit_char n]"

definition pad4 :: "nat \<Rightarrow> string" where
  "pad4 n = [digit_char (n div 1000), digit_char (n div 100), digit_char (n div 10), digit_char n]"

definition isoformat :: "pydatetime \<Rightarrow> string" where
  \<comment> \<open>\<^verbatim>\<open>t.date().isoformat()\<close>\<close>
  "isoformat t = pad4 (year t) @ ''-'' @ pad2 (month t) @ ''-'' @ pad2 (day t)"

definition is_leap :: "int \<Rightarrow> bool" where
  "is_leap y = (y mod 4 = 0 \<and> (y mod 100 \<noteq> 0 \<or> y mod 400 = 0))"

definition days_before_year :: "int \<Rightarrow> int" where
  "days_before_year y = (y - 1) * 365 + (y - 1) div 4 - (y - 1) div 100 + (y - 1) div 400"

definition days_before_month :: "int \<Rightarrow> nat \<Rightarrow> int" where
  "days_before_month y m =
     [0, 31, 59, 90, 120, 151, 181, 212, 243, 273, 304, 334] ! ((m - 1) mod 12)
       + (if 2 < m \<and> is_leap y then 1 else 0)"

definition toordinal :: "pydatetime \<Rightarrow> int" where
  "toordinal t = days_before_year (int (year t)) + days_before_month (int (year t)) (month t)
                   + int (day t)"

definition microseconds_of :: "pydatetime \<Rightarrow> int" where
  "microseconds_of t =
     (((toordinal t * 24 + int (hour t)) * 60 + int (minute t)) * 60 + int (second t)) * 1000000
       + int (microsecond t)"

definition more_than_600_seconds :: "pydatetime \<Rightarrow> pydatetime \<Rightarrow> bool" where
  \<comment> \<open>\<^verbatim>\<open>(now - last_time).total_seconds() > 600\<close>; a timedelta counts whole microseconds\<close>
  "more_than_600_seconds now last_time =
     (600 * 1000000 < microseconds_of now - microseconds_of last_time)"

section \<open>Library functions used by the query\<close>

text \<open>
  The expression \<^verbatim>\<open>datetime(date, 'unixepoch', 'localtime')\<close> is evaluated by SQLite. Its
  \<^verbatim>\<open>'unixepoch'\<close> modifier is accepted only when the time value was read as a bare number
  (SQLite's \<^verbatim>\<open>sqlite3AtoF\<close> consumes the whole text: blanks, a sign, digits, a fraction, an
  exponent, blanks); for every other time value, a \<^verbatim>\<open>YYYY-MM-DD\<close> date included, the whole
  call is \<^verbatim>\<open>NULL\<close>. How a number is rendered as local time, and Python's
  \<^verbatim>\<open>datetime.strptime(_, "%Y-%m-%d %H:%M:%S")\<close> (\<open>None\<close> for its \<^verbatim>\<open>ValueError\<close>), are
  parameters of the model.
\<close>

record lib =
  unixepoch_localtime :: "string \<Rightarrow> string option"
  strptime :: "string \<Rightarrow> pydatetime option"

definition isspace :: "char \<Rightarrow> bool" where
  "isspace c = (c \<in> set [CHR '' '', CHR 0x09, CHR 0x0A, CHR 0x0B, CHR 0x0C, CHR 0x0D])"

definition isdigit :: "char \<Rightarrow> bool" where
  "isdigit c = (c \<in> set ''0123456789'')"

definition skip_sign :: "string \<Rightarrow> string" where
  "skip_sign z = (case z of [] \<Rightarrow> [] | c # r \<Rightarrow> if c = CHR ''-'' \<or> c = CHR ''+'' then r else z)"

definition sqlite3AtoF_accepts :: "string \<Rightarrow> bool" where
  "sqlite3AtoF_accepts z =
     (let z2 = skip_sign (dropWhile isspace z);
          ip = takeWhile isdigit z2;
          z3 = dropWhile isdigit z2;
          has_frac = (case z3 of [] \<Rightarrow> False | c # _ \<Rightarrow> c = CHR ''.'');
          fp = (if has_frac then takeWhile isdigit (tl z3) else []);
          z4 = (if has_frac then dropWhile isdigit (tl z3) else z3);
          has_exp = (case z4 of [] \<Rightarrow> False | c # _ \<Rightarrow> c = CHR ''e'' \<or> c = CHR ''E'');
          ep = (if has_exp then takeWhile isdigit (skip_sign (tl z4)) else []);
          z5 = (if has_exp then dropWhile isdigit (skip_sign (tl z4)) else z4)
      in (ip \<noteq> [] \<or> fp \<noteq> []) \<and> (if has_exp then ep \<noteq> [] else True)
           \<and> dropWhile isspace z5 = [])"

definition sqlite_datetime_unixepoch_localtime :: "lib \<Rightarrow> string \<Rightarrow> string option" where
  "sqlite_datetime_unixepoch_localtime L z =
     (if sqlite3AtoF_accepts z then unixepoch_localtime L z else None)"

section \<open>Connections, failures and the trace\<close>

text \<open>
  \<open>disk\<close> is the committed database; \<open>txn\<close> is what the open connection sees: the committed
  rows and the statements it has executed and not yet committed (Python's \<^verbatim>\<open>sqlite3\<close> opens a
  transaction before the first \<^verbatim>\<open>INSERT\<close> or \<^verbatim>\<open>UPDATE\<close> and keeps it open until
  \<^verbatim>\<open>commit()\<close>; a statement that raises is undone alone). \<open>faults\<close> says, for each coming
  database operation in turn, whether it raises \<^verbatim>\<open>sqlite3.Error\<close>; once the list is used up
  nothing fails. \<open>clock\<close> gives the successive readings of \<^verbatim>\<open>datetime.utcnow()\<close>, \<open>ticks\<close>
  counts the readings taken. \<open>trace\<close> collects the logger's lines and the sleeps.
\<close>

datatype exn = Sqlite3Error | TypeError | ValueError

datatype event =
    Info_auto_blocked int int int
  | Error_auto_block_accounts
  | Error_auto_blocking_task exn
  | Sleep nat

record world =
  disk :: store
  txn :: store
  faults :: "bool list"
  clock :: "nat \<Rightarrow> pydatetime"
  ticks :: nat
  trace :: "event list"

type_synonym 'a result = "(exn + 'a) \<times> world"

definition then_do :: "'a result \<Rightarrow> ('a \<Rightarrow> world \<Rightarrow> 'b result) \<Rightarrow> 'b result" where
  "then_do r k = (case r of (Inl e, w) \<Rightarrow> (Inl e, w) | (Inr x, w) \<Rightarrow> k x w)"

definition db_fails :: "world \<Rightarrow> bool" where
  "db_fails w = (case faults w of [] \<Rightarrow> False | f # _ \<Rightarrow> f)"

definition db_done :: "world \<Rightarrow> world" where
  "db_done w = w\<lparr>faults := tl (faults w)\<rparr>"

definition select :: "(store \<Rightarrow> 'a) \<Rightarrow> world \<Rightarrow> 'a result" where
  "select q w = (if db_fails w then (Inl Sqlite3Error, db_done w)
                 else (Inr (q (txn w)), db_done w))"

definition execute :: "(store \<Rightarrow> store) \<Rightarrow> world \<Rightarrow> unit result" where
  "execute f w = (if db_fails w then (Inl Sqlite3Error, db_done w)
                  else (Inr (), (db_done w)\<lparr>txn := f (txn w)\<rparr>))"

definition commit :: "world \<Rightarrow> unit result" where
  "commit w = (if db_fails w then (Inl Sqlite3Error, db_done w)
               else (Inr (), (db_done w)\<lparr>disk := txn w\<rparr>))"

definition utcnow :: "world \<Rightarrow> pydatetime result" where
  "utcnow w = (Inr (clock w (ticks w)), w\<lparr>ticks := Suc (ticks w)\<rparr>)"

definition logger :: "event \<Rightarrow> world \<Rightarrow> world" where
  "logger e w = w\<lparr>trace := trace w @ [e]\<rparr>"

section \<open>The statements of \<^verbatim>\<open>auto_block_accounts\<close>\<close>

definition select_user :: "int \<Rightarrow> store \<Rightarrow> users_row option" where
  \<comment> \<open>\<^verbatim>\<open>SELECT blocked_count FROM users WHERE id = ?\<close>, then \<^verbatim>\<open>fetchone()\<close>\<close>
  "select_user user_id s = find (\<lambda>r. uid r = user_id) (users s)"

definition select_daily :: "int \<Rightarrow> string \<Rightarrow> store \<Rightarrow> int option" where
  \<comment> \<open>the \<^verbatim>\<open>blocked\<close> column of the row with \<^verbatim>\<open>user_id = ? AND date = ?\<close>\<close>
  "select_daily user_id today s = daily_blocked_counts s (user_id, today)"

definition insert_or_replace_daily :: "int \<Rightarrow> string \<Rightarrow> int \<Rightarrow> store \<Rightarrow> store" where
  "insert_or_replace_daily user_id today n s =
     s\<lparr>daily_blocked_counts := (daily_blocked_counts s)((user_id, today) \<mapsto> n)\<rparr>"

definition update_blocked_count :: "int \<Rightarrow> int \<Rightarrow> store \<Rightarrow> store" where
  \<comment> \<open>\<^verbatim>\<open>UPDATE users SET blocked_count = ? WHERE id = ?\<close>\<close>
  "update_blocked_count user_id n s =
     s\<lparr>users := map (\<lambda>r. if uid r = user_id then r\<lparr>blocked_count := n\<rparr> else r) (users s)\<rparr>"

definition reset_after_10_minutes ::
    "lib \<Rightarrow> int \<Rightarrow> string \<Rightarrow> int \<Rightarrow> string option \<Rightarrow> world \<Rightarrow> int result" where
  \<comment> \<open>lines 253 to 260: the result is the value of \<^verbatim>\<open>daily_count\<close> afterwards\<close>
  "reset_after_10_minutes L user_id today daily_count last_updated w =
     (case last_updated of
        None \<Rightarrow> (Inr daily_count, w)
      | Some stamp \<Rightarrow>
          if stamp = [] then (Inr daily_count, w)
          else (case strptime L stamp of
                  None \<Rightarrow> (Inl ValueError, w)
                | Some last_time \<Rightarrow>
                    then_do (utcnow w) (\<lambda>now w.
                      if more_than_600_seconds now last_time
                      then then_do (execute (insert_or_replace_daily user_id today 0) w)
                             (\<lambda>_ w. (Inr 0, w))
                      else (Inr daily_count, w))))"

definition record_block :: "int \<Rightarrow> string \<Rightarrow> int \<Rightarrow> int \<Rightarrow> world \<Rightarrow> unit result" where
  \<comment> \<open>lines 263 to 271, with the two counters already incremented\<close>
  "record_block user_id today blocked_count' daily_count' w =
     then_do (execute (insert_or_replace_daily user_id today daily_count') w) (\<lambda>_ w.
     then_do (execute (update_blocked_count user_id blocked_count') w) (\<lambda>_ w.
     then_do (commit w) (\<lambda>_ w.
       (Inr (), logger (Info_auto_blocked user_id blocked_count' daily_count') w))))"

text \<open>
  The query of line 243 selects the row with \<^verbatim>\<open>date = today\<close>, so the \<^verbatim>\<open>date\<close> that it hands
  to \<^verbatim>\<open>datetime(date, 'unixepoch', 'localtime')\<close> is the text \<open>today\<close>.
\<close>

definition try_block :: "lib \<Rightarrow> int \<Rightarrow> world \<Rightarrow> unit result" where
  \<comment> \<open>the body of the \<^verbatim>\<open>try\<close>, lines 237 to 271\<close>
  "try_block L user_id w =
     then_do (select (select_user user_id) w) (\<lambda>row w.
       case row of
         None \<Rightarrow> (Inl TypeError, w)
       | Some u \<Rightarrow>
           then_do (utcnow w) (\<lambda>now w.
             let today = isoformat now
             in then_do (select (select_daily user_id today) w) (\<lambda>daily_record w.
                  let daily_count = (case daily_record of None \<Rightarrow> 0 | Some b \<Rightarrow> b);
                      last_updated = (case daily_record of None \<Rightarrow> None
                                      | Some _ \<Rightarrow> sqlite_datetime_unixepoch_localtime L today)
                  in if daily_count < 100
                     then then_do
                            (reset_after_10_minutes L user_id today daily_count last_updated w)
                            (\<lambda>daily_count w.
                               if daily_count < 100
                               then record_block user_id today (blocked_count u + 1)
                                      (daily_count + 1) w
                               else (Inr (), w))
                     else (Inr (), w))))"

definition auto_block_accounts :: "lib \<Rightarrow> int \<Rightarrow> world \<Rightarrow> unit result" where
  \<comment> \<open>\<^verbatim>\<open>except sqlite3.Error\<close> logs and returns; any other exception leaves the function\<close>
  "auto_block_accounts L user_id w =
     (case try_block L user_id w of
        (Inl e, w') \<Rightarrow> if e = Sqlite3Error then (Inr (), logger Error_auto_block_accounts w')
                       else (Inl e, w')
      | (Inr x, w') \<Rightarrow> (Inr x, w'))"

section \<open>The scheduler loop \<^verbatim>\<open>start_auto_blocking\<close>\<close>

definition connect :: "world \<Rightarrow> unit result" where
  \<comment> \<open>\<^verbatim>\<open>sqlite3.connect\<close>: a new connection sees the committed database\<close>
  "connect w = (if db_fails w then (Inl Sqlite3Error, db_done w)
                else (Inr (), (db_done w)\<lparr>txn := disk w\<rparr>))"

definition close :: "world \<Rightarrow> world" where
  \<comment> \<open>\<^verbatim>\<open>conn.close()\<close>: what was not committed is rolled back\<close>
  "close w = w\<lparr>txn := disk w\<rparr>"

definition select_paid_users :: "store \<Rightarrow> int list" where
  \<comment> \<open>\<^verbatim>\<open>SELECT id FROM users WHERE EXISTS (SELECT 1 FROM payment_history WHERE user_id = users.id)\<close>\<close>
  "select_paid_users s =
     map uid (filter (\<lambda>r. list_ex (\<lambda>p. payment_user_id p = uid r) (payment_history s)) (users s))"

definition select_is_connected :: "int \<Rightarrow> store \<Rightarrow> bool option" where
  \<comment> \<open>\<^verbatim>\<open>SELECT is_connected FROM accounts WHERE user_id = ?\<close>, then \<^verbatim>\<open>fetchone()\<close>: the first row\<close>
  "select_is_connected user_id s =
     (case filter (\<lambda>a. account_user_id a = user_id) (accounts s) of
        [] \<Rightarrow> None
      | a # _ \<Rightarrow> Some (is_connected a))"

fun block_paid_users :: "lib \<Rightarrow> int list \<Rightarrow> world \<Rightarrow> unit result" where
  "block_paid_users L [] w = (Inr (), w)"
| "block_paid_users L (user # paid_users) w =
     then_do (select (select_is_connected user) w) (\<lambda>is_connected w.
       if is_connected = Some True
       then then_do (auto_block_accounts L user w) (\<lambda>_ w. block_paid_users L paid_users w)
       else block_paid_users L paid_users w)"

definition connect_and_block :: "lib \<Rightarrow> world \<Rightarrow> unit result" where
  \<comment> \<open>the body of the \<^verbatim>\<open>try\<close> in the loop, lines 278 to 288\<close>
  "connect_and_block L w =
     then_do (connect w) (\<lambda>_ w.
     then_do (select select_paid_users w) (\<lambda>paid_users w.
     then_do (block_paid_users L paid_users w) (\<lambda>_ w. (Inr (), close w))))"

definition cycle :: "lib \<Rightarrow> world \<Rightarrow> world" where
  \<comment> \<open>one turn of \<^verbatim>\<open>while True\<close>: \<^verbatim>\<open>except Exception\<close> logs, then \<^verbatim>\<open>asyncio.sleep(6)\<close>\<close>
  "cycle L w =
     (case connect_and_block L w of
        (Inl e, w') \<Rightarrow> logger (Sleep 6) (logger (Error_auto_blocking_task e) w')
      | (Inr _, w') \<Rightarrow> logger (Sleep 6) w')"

fun start_auto_blocking :: "lib \<Rightarrow> nat \<Rightarrow> world \<Rightarrow> world" where
  \<comment> \<open>the loop never returns; this is the state after the given number of turns\<close>
  "start_auto_blocking L 0 w = w"
| "start_auto_blocking L (Suc n) w = start_auto_blocking L n (cycle L w)"

definition dashboard_is_connected :: "int \<Rightarrow> store \<Rightarrow> bool" where
  \<comment> \<open>\<^verbatim>\<open>get_dashboard\<close>, line 375: \<^verbatim>\<open>any(row["is_connected"] for row in accounts)\<close>\<close>
  "dashboard_is_connected user_id s =
     list_ex is_connected (filter (\<lambda>a. account_user_id a = user_id) (accounts s))"

section \<open>The request handlers that write to the database\<close>

text \<open>
  The handlers of \<^verbatim>\<open>main.py\<close> that execute an \<^verbatim>\<open>INSERT\<close> or an \<^verbatim>\<open>UPDATE\<close>; \<^verbatim>\<open>login\<close>,
  \<^verbatim>\<open>get_dashboard\<close> and \<^verbatim>\<open>create_payment_intent\<close> only read. Each request has a connection
  of its own (\<^verbatim>\<open>get_db\<close>) and commits before it answers, so a handler is a function on the
  committed database. The user id is the one \<^verbatim>\<open>verify_token\<close> took from the token; what the
  payment processor answered is an argument.
\<close>

datatype response = Ok_200 | Http_error nat

definition next_user_id :: "store \<Rightarrow> int" where
  \<comment> \<open>\<^verbatim>\<open>AUTOINCREMENT\<close>: one more than the largest id (no row is ever deleted)\<close>
  "next_user_id s = fold max (map uid (users s)) 0 + 1"

definition signup :: "string \<Rightarrow> string \<Rightarrow> store \<Rightarrow> response \<times> store" where
  \<comment> \<open>the \<^verbatim>\<open>HTTPException(400)\<close> of line 317 is caught by \<^verbatim>\<open>except Exception\<close> and becomes a 500\<close>
  "signup form_email hashed_password s =
     (if list_ex (\<lambda>r. email r = form_email) (users s) then (Http_error 500, s)
      else (Ok_200,
            s\<lparr>users := users s @
                  [\<lparr>uid = next_user_id s, email = form_email, password = hashed_password,
                    stripe_customer_id = None, blocked_count = 0\<rparr>]\<rparr>))"

definition account_key :: "accounts_row \<Rightarrow> int \<times> string" where
  "account_key a = (account_user_id a, username a)"

definition insert_or_replace_account :: "accounts_row \<Rightarrow> store \<Rightarrow> store" where
  \<comment> \<open>the rows stay in the order of the primary key, in which the index scan returns them\<close>
  "insert_or_replace_account a s =
     (let others = filter (\<lambda>x. account_key x \<noteq> account_key a) (accounts s)
      in s\<lparr>accounts := takeWhile (\<lambda>x. account_key x < account_key a) others
                          @ a # dropWhile (\<lambda>x. account_key x < account_key a) others\<rparr>)"

definition connect_instagram :: "int \<Rightarrow> store \<Rightarrow> response \<times> store" where
  "connect_instagram user_id s =
     (Ok_200, insert_or_replace_account
                \<lparr>account_user_id = user_id, username = ''@instagram_acc'', is_connected = True\<rparr> s)"

definition confirm_payment ::
    "int \<Rightarrow> bool \<Rightarrow> int \<Rightarrow> string \<Rightarrow> string \<Rightarrow> store \<Rightarrow> response \<times> store" where
  \<comment> \<open>\<open>succeeded\<close>: \<^verbatim>\<open>payment_intent.status == "succeeded"\<close>; a missing user's 401 becomes a 500\<close>
  "confirm_payment user_id succeeded cents description now_iso s =
     (case select_user user_id s of
        None \<Rightarrow> (Http_error 500, s)
      | Some _ \<Rightarrow>
          if succeeded
          then (Ok_200,
                s\<lparr>payment_history := payment_history s @
                     [\<lparr>payment_user_id = user_id, amount = cents, package = description,
                       date_paid = now_iso\<rparr>]\<rparr>)
          else (Http_error 500, s))"

definition update_stripe_customer_id :: "int \<Rightarrow> string \<Rightarrow> store \<Rightarrow> store" where
  \<comment> \<open>\<^verbatim>\<open>UPDATE users SET stripe_customer_id = ? WHERE id = ?\<close>\<close>
  "update_stripe_customer_id user_id c s =
     s\<lparr>users := map (\<lambda>r. if uid r = user_id then r\<lparr>stripe_customer_id := Some c\<rparr> else r)
                    (users s)\<rparr>"

definition create_subscription :: "int \<Rightarrow> string \<Rightarrow> store \<Rightarrow> response \<times> store" where
  \<comment> \<open>\<open>customer_id\<close>: the id of the customer that the payment processor created\<close>
  "create_subscription user_id customer_id s =
     (case select_user user_id s of
        None \<Rightarrow> (Http_error 500, s)
      | Some u \<Rightarrow>
          if stripe_customer_id u = None \<or> stripe_customer_id u = Some []
          then (Ok_200, update_stripe_customer_id user_id customer_id s)
          else (Ok_200, s))"

datatype request =
    Signup string string
  | Connect_instagram int
  | Confirm_payment int bool int string string
  | Create_subscription int string

fun handle :: "request \<Rightarrow> store \<Rightarrow> store" where
  "handle (Signup e p) s = snd (signup e p s)"
| "handle (Connect_instagram u) s = snd (connect_instagram u s)"
| "handle (Confirm_payment u ok c d t) s = snd (confirm_payment u ok c d t s)"
| "handle (Create_subscription u c) s = snd (create_subscription u c s)"

text \<open>
  The scheduler task suspends only in \<^verbatim>\<open>asyncio.sleep\<close>, so the event loop serves requests
  between two turns of the loop: a run of the server is a sequence of turns and requests.
\<close>

datatype step = Cycle | Request request

fun run :: "lib \<Rightarrow> step list \<Rightarrow> world \<Rightarrow> world" where
  "run L [] w = w"
| "run L (Cycle # steps) w = run L steps (cycle L w)"
| "run L (Request r # steps) w = run L steps (w\<lparr>disk := handle r (disk w)\<rparr>)"

section \<open>Reading the counters\<close>

definition daily_count_of :: "int \<Rightarrow> string \<Rightarrow> store \<Rightarrow> int" where
  \<comment> \<open>\<^verbatim>\<open>daily_record["blocked"] if daily_record else 0\<close>\<close>
  "daily_count_of user_id today s =
     (case select_daily user_id today s of None \<Rightarrow> 0 | Some b \<Rightarrow> b)"

definition lifetime_of :: "int \<Rightarrow> store \<Rightarrow> int option" where
  "lifetime_of user_id s = map_option blocked_count (select_user user_id s)"

definition all_nonneg :: "store \<Rightarrow> bool" where
  "all_nonneg s = list_all (\<lambda>r. 0 \<le> blocked_count r) (users s)"


definition at_least :: "int \<Rightarrow> int option \<Rightarrow> bool" where
  "at_least b v = (case v of None \<Rightarrow> False | Some b' \<Rightarrow> b \<le> b')"

definition is_increment_of :: "int \<Rightarrow> event \<Rightarrow> bool" where
  "is_increment_of user_id e =
     (case e of Info_auto_blocked v _ _ \<Rightarrow> v = user_id | _ \<Rightarrow> False)"


text \<open>
  The invariant of the runs of the server for a user whose lifetime counter was \<open>b\<close>: the
  counter is at least \<open>b\<close> on disk and in the connection's view, and no counter is negative.
\<close>

definition grown :: "int \<Rightarrow> int \<Rightarrow> world \<Rightarrow> bool" where
  "grown u b w = (at_least b (lifetime_of u (disk w)) \<and> at_least b (lifetime_of u (txn w))
                  \<and> all_nonneg (disk w) \<and> all_nonneg (txn w))"

text \<open>
  The invariant of the loop for a user at the cap: every reading of the clock falls on the day
  \<open>d\<close>, the count of that day is 100 on disk and in the connection's view, the lifetime counter
  is \<open>b\<close>, and the increments logged for the user are \<open>tr\<close>.
\<close>

definition stuck :: "int \<Rightarrow> string \<Rightarrow> int option \<Rightarrow> event list \<Rightarrow> world \<Rightarrow> bool" where
  "stuck u d b tr w =
     ((\<forall>i. isoformat (clock w i) = d)
      \<and> select_daily u d (disk w) = Some 100 \<and> select_daily u d (txn w) = Some 100
      \<and> lifetime_of u (disk w) = b \<and> lifetime_of u (txn w) = b
      \<and> filter (is_increment_of u) (trace w) = tr)"

section \<open>Example inputs\<close>

text \<open>
  One paying user (id 1) with a connected account, at some lifetime count and some count for
  12 October 2026; a clock whose first reading is midnight of that day and whose later readings
  are twenty minutes after it.
\<close>

definition at_time :: "nat \<Rightarrow> nat \<Rightarrow> nat \<Rightarrow> pydatetime" where
  "at_time h m s =
     \<lparr>year = 2026, month = 10, day = 12, hour = h, minute = m, second = s, microsecond = 0\<rparr>"

definition one_user :: "int \<Rightarrow> int option \<Rightarrow> store" where
  "one_user lifetime today_count =
     \<lparr>users = [\<lparr>uid = 1, email = ''a@b.c'', password = ''$2b$12$'', stripe_customer_id = None,
                blocked_count = lifetime\<rparr>],
      accounts = [\<lparr>account_user_id = 1, username = ''@instagram_acc'', is_connected = True\<rparr>],
      payment_history = [\<lparr>payment_user_id = 1, amount = 999, package = ''Basic'',
                          date_paid = ''2026-10-01T08:00:00''\<rparr>],
      daily_blocked_counts = (\<lambda>k. if k = (1, ''2026-10-12'') then today_count else None)\<rparr>"

definition world_of :: "store \<Rightarrow> bool list \<Rightarrow> world" where
  "world_of s fs =
     \<lparr>disk = s, txn = s, faults = fs,
      clock = (\<lambda>n. if n = 0 then at_time 0 0 0 else at_time 0 20 0), ticks = 0, trace = []\<rparr>"

definition two_users :: store where
  \<comment> \<open>two paying users with a connected account and no count yet\<close>
  "two_users =
     \<lparr>users = [\<lparr>uid = 1, email = ''a@b.c'', password = ''$2b$12$'', stripe_customer_id = None,
                blocked_count = 0\<rparr>,
               \<lparr>uid = 2, email = ''d@e.f'', password = ''$2b$12$'', stripe_customer_id = None,
                blocked_count = 0\<rparr>],
      accounts = [\<lparr>account_user_id = 1, username = ''@instagram_acc'', is_connected = True\<rparr>,
                  \<lparr>account_user_id = 2, username = ''@instagram_acc'', is_connected = True\<rparr>],
      payment_history = [\<lparr>payment_user_id = 1, amount = 999, package = ''Basic'',
                          date_paid = ''2026-10-01T08:00:00''\<rparr>,
                         \<lparr>payment_user_id = 2, amount = 999, package = ''Basic'',
                          date_paid = ''2026-10-02T08:00:00''\<rparr>],
      daily_blocked_counts = (\<lambda>k. None)\<rparr>"

definition two_accounts :: store where
  \<comment> \<open>a paying user whose first account row is not connected and whose second one is\<close>
  "two_accounts =
     \<lparr>users = [\<lparr>uid = 1, email = ''a@b.c'', password = ''$2b$12$'', stripe_customer_id = None,
                blocked_count = 0\<rparr>],
      accounts = [\<lparr>account_user_id = 1, username = ''1st_account'', is_connected = False\<rparr>,
                  \<lparr>account_user_id = 1, username = ''@instagram_acc'', is_connected = True\<rparr>],
      payment_history = [\<lparr>payment_user_id = 1, amount = 999, package = ''Basic'',
                          date_paid = ''2026-10-01T08:00:00''\<rparr>],
      daily_blocked_counts = (\<lambda>k. None)\<rparr>"

section \<open>What the query reads back as the time of the last update\<close>

text \<open>
  Had the query read a time more than 600 seconds old, lines 253 to 260 would write a count of
  0 for the day and go on from 0.
\<close>

lemma reset_when_a_time_is_read:
  assumes "stamp \<noteq> []" and "strptime L stamp = Some last_time"
    and "more_than_600_seconds (clock w (ticks w)) last_time" and "\<not> db_fails w"
  shows "reset_after_10_minutes L user_id today daily_count (Some stamp) w =
           (Inr 0, w\<lparr>txn := insert_or_replace_daily user_id today 0 (txn w),
                      faults := tl (faults w), ticks := Suc (ticks w)\<rparr>)"
  using assms
  by (simp add: reset_after_10_minutes_def then_do_def utcnow_def execute_def db_fails_def
        db_done_def)

text \<open>
  But the text of a date never reads as a number, so the query reads \<^verbatim>\<open>NULL\<close>.
\<close>

lemma isdigit_digit_char: "isdigit (digit_char n)"
proof -
  have "n mod 10 < length ''0123456789''" by simp
  then have "''0123456789'' ! (n mod 10) \<in> set ''0123456789''" by (rule nth_mem)
  then show ?thesis by (simp only: isdigit_def digit_char_def)
qed

lemma isdigit_not_special:
  assumes "isdigit c"
  shows "\<not> isspace c" "c \<noteq> CHR ''-''" "c \<noteq> CHR ''+''" "c \<noteq> CHR ''.''"
  using assms by (auto simp: isdigit_def isspace_def)

lemma minus_not_digit: "\<not> isdigit CHR ''-''" "\<not> isspace CHR ''-''"
  by (simp_all add: isdigit_def isspace_def)

lemma sqlite3AtoF_rejects_isoformat: "\<not> sqlite3AtoF_accepts (isoformat t)"
proof -
  obtain a b c d r where iso: "isoformat t = a # b # c # d # CHR ''-'' # r"
    and dig: "isdigit a" "isdigit b" "isdigit c" "isdigit d"
    by (simp add: isoformat_def pad4_def isdigit_digit_char)
  show ?thesis
    unfolding sqlite3AtoF_accepts_def iso
    using dig by (simp add: isdigit_not_special minus_not_digit skip_sign_def Let_def)
qed

lemma datetime_of_isoformat_is_NULL:
  "sqlite_datetime_unixepoch_localtime L (isoformat t) = None"
  by (simp add: sqlite_datetime_unixepoch_localtime_def sqlite3AtoF_rejects_isoformat)

lemma reset_skipped:
  "reset_after_10_minutes L user_id today daily_count None w = (Inr daily_count, w)"
  by (simp add: reset_after_10_minutes_def)

text \<open>
  The row that the query selects has \<^verbatim>\<open>date = today\<close>, so \<^verbatim>\<open>last_updated\<close> is always
  \<^verbatim>\<open>None\<close> and the body of the \<^verbatim>\<open>try\<close> is the same as one without lines 253 to 260.
\<close>

lemma try_block_no_reset:
  "try_block L user_id w =
     then_do (select (select_user user_id) w) (\<lambda>row w.
       case row of
         None \<Rightarrow> (Inl TypeError, w)
       | Some u \<Rightarrow>
           then_do (utcnow w) (\<lambda>now w.
           then_do (select (select_daily user_id (isoformat now)) w) (\<lambda>daily_record w.
             let daily_count = (case daily_record of None \<Rightarrow> 0 | Some b \<Rightarrow> b)
             in if daily_count < 100
                then record_block user_id (isoformat now) (blocked_count u + 1) (daily_count + 1) w
                else (Inr (), w))))"
  unfolding try_block_def
  by (auto simp: then_do_def Let_def datetime_of_isoformat_is_NULL reset_skipped
           split: option.splits prod.splits sum.splits)

lemmas io_defs = then_do_def select_def execute_def commit_def utcnow_def logger_def
  db_fails_def db_done_def record_block_def

section \<open>The statements and the counters\<close>

lemma select_daily_insert [simp]:
  "select_daily u d (insert_or_replace_daily v t n s) =
     (if u = v \<and> d = t then Some n else select_daily u d s)"
  by (simp add: select_daily_def insert_or_replace_daily_def)

lemma select_daily_update [simp]:
  "select_daily u d (update_blocked_count v n s) = select_daily u d s"
  by (simp add: select_daily_def update_blocked_count_def)

lemma daily_insert [simp]:
  "daily_blocked_counts (insert_or_replace_daily v t n s) k =
     (if k = (v, t) then Some n else daily_blocked_counts s k)"
  by (simp add: insert_or_replace_daily_def)

lemma daily_update [simp]:
  "daily_blocked_counts (update_blocked_count v n s) = daily_blocked_counts s"
  by (simp add: update_blocked_count_def)

lemma users_insert [simp]: "users (insert_or_replace_daily v t n s) = users s"
  by (simp add: insert_or_replace_daily_def)

lemma find_map_blocked_count:
  "find (\<lambda>r. uid r = u) (map (\<lambda>r. if uid r = v then r\<lparr>blocked_count := n\<rparr> else r) rs) =
     (if u = v then map_option (\<lambda>r. r\<lparr>blocked_count := n\<rparr>) (find (\<lambda>r. uid r = u) rs)
      else find (\<lambda>r. uid r = u) rs)"
  by (induction rs) auto

lemma lifetime_of_insert [simp]:
  "lifetime_of u (insert_or_replace_daily v t n s) = lifetime_of u s"
  by (simp add: lifetime_of_def select_user_def)

lemma lifetime_of_update:
  "lifetime_of u (update_blocked_count v n s) =
     (if u = v then map_option (\<lambda>_. n) (lifetime_of u s) else lifetime_of u s)"
  by (simp add: lifetime_of_def select_user_def update_blocked_count_def find_map_blocked_count
        option.map_comp comp_def)

lemma lifetime_of_Some: "select_user v s = Some u \<Longrightarrow> lifetime_of v s = Some (blocked_count u)"
  by (simp add: lifetime_of_def)

lemma all_nonneg_insert [simp]: "all_nonneg (insert_or_replace_daily v t n s) = all_nonneg s"
  by (simp add: all_nonneg_def)

lemma all_nonneg_update:
  "all_nonneg s \<Longrightarrow> 0 \<le> n \<Longrightarrow> all_nonneg (update_blocked_count v n s)"
  by (auto simp: all_nonneg_def update_blocked_count_def list_all_iff)

lemma select_user_nonneg:
  "all_nonneg s \<Longrightarrow> select_user v s = Some u \<Longrightarrow> 0 \<le> blocked_count u"
  by (auto simp: all_nonneg_def select_user_def list_all_iff find_Some_iff)

section \<open>One call of \<^verbatim>\<open>auto_block_accounts\<close>\<close>

text \<open>
  Whatever fails: the connection's view changes by nothing, by the \<^verbatim>\<open>INSERT OR REPLACE\<close> alone
  or by both statements; the committed database is the old one or the connection's view; and at
  most one line is logged.
\<close>

lemma auto_block_accounts_cases:
  fixes L user_id w
  defines "w' \<equiv> snd (auto_block_accounts L user_id w)"
  defines "today \<equiv> isoformat (clock w (ticks w))"
  shows "clock w' = clock w"
    and "txn w' = txn w \<or>
         (\<exists>u. select_user user_id (txn w) = Some u \<and> daily_count_of user_id today (txn w) < 100 \<and>
           (txn w' = insert_or_replace_daily user_id today (daily_count_of user_id today (txn w) + 1) (txn w)
          \<or> txn w' = update_blocked_count user_id (blocked_count u + 1)
               (insert_or_replace_daily user_id today (daily_count_of user_id today (txn w) + 1) (txn w))))"
    and "disk w' = disk w \<or> disk w' = txn w'"
    and "trace w' = trace w \<or> trace w' = trace w @ [Error_auto_block_accounts] \<or>
         (\<exists>b c. daily_count_of user_id today (txn w) < 100 \<and>
                 trace w' = trace w @ [Info_auto_blocked user_id b c])"
  unfolding w'_def today_def
  by (auto simp: auto_block_accounts_def try_block_no_reset io_defs Let_def daily_count_of_def
           split: option.splits list.splits)


lemma at_cap:
  assumes "select_daily user_id (isoformat (clock w (ticks w))) (txn w) = Some c" "100 \<le> c"
  shows "disk (snd (auto_block_accounts L user_id w)) = disk w"
    and "txn (snd (auto_block_accounts L user_id w)) = txn w"
    and "faults w = [] \<Longrightarrow> trace (snd (auto_block_accounts L user_id w)) = trace w"
  using assms
  by (auto simp: auto_block_accounts_def try_block_no_reset io_defs Let_def
           split: option.splits list.splits)

lemma increment_ok:
  assumes "faults w = []" "select_user user_id (txn w) = Some u"
    and "today = isoformat (clock w (ticks w))"
    and "c = daily_count_of user_id today (txn w)"
    and "c < 100"
  shows "auto_block_accounts L user_id w =
          (Inr (), w\<lparr>disk := update_blocked_count user_id (blocked_count u + 1)
                               (insert_or_replace_daily user_id today (c + 1) (txn w)),
                     txn := update_blocked_count user_id (blocked_count u + 1)
                               (insert_or_replace_daily user_id today (c + 1) (txn w)),
                     ticks := Suc (ticks w),
                     trace := trace w @ [Info_auto_blocked user_id (blocked_count u + 1) (c + 1)]\<rparr>)"
  using assms
  by (auto simp: auto_block_accounts_def try_block_no_reset io_defs Let_def daily_count_of_def
           split: option.splits list.splits)

lemma two_calls_from_below_cap:
  fixes L
  assumes nf: "faults w = []" and us: "select_user user_id (txn w) = Some u"
    and d0: "isoformat (clock w (ticks w)) = today"
    and d1: "isoformat (clock w (Suc (ticks w))) = today"
    and cnt: "select_daily user_id today (txn w) = Some c" and lt: "c < 100"
  defines "w1 \<equiv> snd (auto_block_accounts L user_id w)"
  shows "faults w1 = []" and "clock w1 = clock w" and "ticks w1 = Suc (ticks w)"
    and "select_daily user_id today (txn w1) = Some (c + 1)"
    and "select_daily user_id today (disk w1) = Some (c + 1)"
    and "lifetime_of user_id (txn w1) = Some (blocked_count u + 1)"
    and "lifetime_of user_id (disk w1) = Some (blocked_count u + 1)"
    and "trace w1 = trace w @ [Info_auto_blocked user_id (blocked_count u + 1) (c + 1)]"
proof -
  have c: "c = daily_count_of user_id today (txn w)"
    using cnt by (simp add: daily_count_of_def)
  note eq = increment_ok [OF nf us d0 [symmetric] c lt, of L]
  show "faults w1 = []" and "clock w1 = clock w" and "ticks w1 = Suc (ticks w)"
    and "select_daily user_id today (txn w1) = Some (c + 1)"
    and "select_daily user_id today (disk w1) = Some (c + 1)"
    and "lifetime_of user_id (txn w1) = Some (blocked_count u + 1)"
    and "lifetime_of user_id (disk w1) = Some (blocked_count u + 1)"
    and "trace w1 = trace w @ [Info_auto_blocked user_id (blocked_count u + 1) (c + 1)]"
    unfolding w1_def eq
    using nf lifetime_of_Some [OF us]
    by (simp_all add: lifetime_of_update)
qed


lemma daily_count_grows:
  "daily_count_of u d (txn w) \<le> daily_count_of u d (txn (snd (auto_block_accounts L v w)))"
  using auto_block_accounts_cases(2) [of L v w]
  by (auto simp: daily_count_of_def)


lemma all_nonneg_step:
  assumes "all_nonneg (txn w)"
  shows "all_nonneg (txn (snd (auto_block_accounts L v w)))"
proof -
  have "all_nonneg (update_blocked_count v (blocked_count u + 1) (insert_or_replace_daily v t n (txn w)))"
    if "select_user v (txn w) = Some u" for u t n
  proof (rule all_nonneg_update)
    show "all_nonneg (insert_or_replace_daily v t n (txn w))" using assms by simp
    show "0 \<le> blocked_count u + 1" using select_user_nonneg [OF assms that] by simp
  qed
  then show ?thesis
    using auto_block_accounts_cases(2) [of L v w] assms by auto
qed

lemma lifetime_step:
  assumes "lifetime_of u (txn w) = Some b"
  shows "lifetime_of u (txn (snd (auto_block_accounts L v w))) = Some b
       \<or> (v = u \<and> lifetime_of u (txn (snd (auto_block_accounts L v w))) = Some (b + 1))"
proof (cases "v = u")
  case True
  have "blocked_count x = b" if "select_user v (txn w) = Some x" for x
    using lifetime_of_Some [OF that] assms True by simp
  then show ?thesis
    using auto_block_accounts_cases(2) [of L v w] assms True
    by (auto simp: lifetime_of_update)
next
  case False
  then show ?thesis
    using auto_block_accounts_cases(2) [of L v w] assms
    by (auto simp: lifetime_of_update)
qed



section \<open>The loop\<close>

text \<open>
  A property of the worlds that a call of \<^verbatim>\<open>auto_block_accounts\<close> keeps, and that does not
  depend on the list of coming failures nor on which connection is open, is kept by the loop
  over the paid users, by a turn of the scheduler and by any number of turns.
\<close>

lemma block_paid_users_preserves:
  assumes step: "\<And>v w. P w \<Longrightarrow> P (snd (auto_block_accounts L v w))"
    and sel: "\<And>w. P w \<Longrightarrow> P (db_done w)"
    and "P w"
  shows "P (snd (block_paid_users L us w))"
  using \<open>P w\<close>
proof (induction us arbitrary: w)
  case Nil
  then show ?case by simp
next
  case (Cons v us)
  have a: "P (db_done w)" using Cons.prems by (rule sel)
  show ?case
  proof (cases "db_fails w")
    case True
    then show ?thesis using a by (simp add: then_do_def select_def)
  next
    case False
    show ?thesis
    proof (cases "select_is_connected v (txn w) = Some True")
      case conn: True
      obtain r w1 where r: "auto_block_accounts L v (db_done w) = (r, w1)" by force
      have "P w1" using step [OF a, of v] r by simp
      then have "P (snd (block_paid_users L us w1))" by (rule Cons.IH)
      moreover have "P w1" by fact
      ultimately show ?thesis using False conn r
        by (cases r) (simp_all add: then_do_def select_def)
    next
      case nc: False
      have "P (snd (block_paid_users L us (db_done w)))" using a by (rule Cons.IH)
      then show ?thesis using False nc by (simp add: then_do_def select_def)
    qed
  qed
qed

lemma connect_and_block_preserves:
  assumes step: "\<And>v w. P w \<Longrightarrow> P (snd (auto_block_accounts L v w))"
    and sel: "\<And>w. P w \<Longrightarrow> P (db_done w)"
    and con: "\<And>w. P w \<Longrightarrow> P (w\<lparr>txn := disk w\<rparr>)"
    and "P w"
  shows "P (snd (connect_and_block L w))"
proof -
  have 1: "P (snd (connect w))"
  proof -
    have d: "P (db_done w)" using \<open>P w\<close> by (rule sel)
    then have "P ((db_done w)\<lparr>txn := disk (db_done w)\<rparr>)" by (rule con)
    then show ?thesis using d by (simp add: connect_def db_done_def)
  qed
  have 2: "P (snd (then_do (select select_paid_users w) (\<lambda>paid_users w.
     then_do (block_paid_users L paid_users w) (\<lambda>_ w. (Inr (), close w)))))" if pw: "P w" for w
  proof -
    have d: "P (db_done w)" using pw by (rule sel)
    have "P (snd (block_paid_users L (select_paid_users (txn w)) (db_done w)))"
      using step sel d by (rule block_paid_users_preserves)
    then show ?thesis
      using d con
      by (auto simp: then_do_def select_def close_def split: prod.splits sum.splits)
  qed
  show ?thesis
    unfolding connect_and_block_def
    using 1 2 [of "snd (connect w)"]
    by (cases "connect w") (auto simp: then_do_def split: sum.splits)
qed

lemma cycle_preserves:
  assumes step: "\<And>v w. P w \<Longrightarrow> P (snd (auto_block_accounts L v w))"
    and sel: "\<And>w. P w \<Longrightarrow> P (db_done w)"
    and con: "\<And>w. P w \<Longrightarrow> P (w\<lparr>txn := disk w\<rparr>)"
    and lg: "\<And>w n. P w \<Longrightarrow> P (logger (Sleep n) w)"
    and lge: "\<And>w x. P w \<Longrightarrow> P (logger (Error_auto_blocking_task x) w)"
    and "P w"
  shows "P (cycle L w)"
proof -
  have "P (snd (connect_and_block L w))"
    using step sel con \<open>P w\<close> by (rule connect_and_block_preserves)
  then show ?thesis
    unfolding cycle_def using lg lge by (auto split: prod.splits sum.splits)
qed

lemma start_auto_blocking_preserves:
  assumes step: "\<And>v w. P w \<Longrightarrow> P (snd (auto_block_accounts L v w))"
    and sel: "\<And>w. P w \<Longrightarrow> P (db_done w)"
    and con: "\<And>w. P w \<Longrightarrow> P (w\<lparr>txn := disk w\<rparr>)"
    and lg: "\<And>w n. P w \<Longrightarrow> P (logger (Sleep n) w)"
    and lge: "\<And>w x. P w \<Longrightarrow> P (logger (Error_auto_blocking_task x) w)"
    and "P w"
  shows "P (start_auto_blocking L n w)"
  using \<open>P w\<close>
proof (induction n arbitrary: w)
  case 0
  then show ?case by simp
next
  case (Suc n)
  have "P (cycle L w)" using step sel con lg lge Suc.prems by (rule cycle_preserves)
  then show ?case using Suc.IH by simp
qed






lemma stuck_step:
  assumes "stuck u d b tr w"
  shows "stuck u d b tr (snd (auto_block_accounts L v w))"
proof -
  let ?w' = "snd (auto_block_accounts L v w)"
  let ?today = "isoformat (clock w (ticks w))"
  have today: "?today = d" using assms by (simp add: stuck_def)
  note c = auto_block_accounts_cases [of L v w]
  have cap: "daily_count_of u d (txn w) = 100" using assms by (simp add: stuck_def daily_count_of_def)
  have t: "select_daily u d (txn ?w') = Some 100 \<and> lifetime_of u (txn ?w') = b"
    using c(2) cap assms unfolding today
    by (auto simp: stuck_def lifetime_of_update)
  have tr: "filter (is_increment_of u) (trace ?w') = tr"
    using c(4) cap assms unfolding today
    by (auto simp: stuck_def is_increment_of_def)
  show ?thesis
    using t tr c(1) c(3) assms by (auto simp: stuck_def)
qed

lemma stuck_forever:
  assumes "stuck u d b tr w"
  shows "stuck u d b tr (start_auto_blocking L n w)"
proof (rule start_auto_blocking_preserves [where P = "stuck u d b tr"])
  show "stuck u d b tr w" by fact
qed (auto simp: stuck_step, auto simp: stuck_def db_done_def logger_def is_increment_of_def)

lemma daily_count_of_disk_grows:
  assumes "txn w = disk w"
  shows "daily_count_of u d (disk w) \<le> daily_count_of u d (disk (start_auto_blocking L n w))"
proof -
  let ?m = "daily_count_of u d (disk w)"
  let ?P = "\<lambda>w::world. ?m \<le> daily_count_of u d (disk w) \<and> ?m \<le> daily_count_of u d (txn w)"
  have "?P (start_auto_blocking L n w)"
  proof (rule start_auto_blocking_preserves [where P = ?P])
    show "?P w" using assms by simp
  next
    fix v w assume p: "?P w"
    have "daily_count_of u d (txn w) \<le> daily_count_of u d (txn (snd (auto_block_accounts L v w)))"
      by (rule daily_count_grows)
    then show "?P (snd (auto_block_accounts L v w))"
      using p auto_block_accounts_cases(3) [of L v w] by auto
  qed (simp_all add: db_done_def logger_def)
  then show ?thesis by simp
qed

section \<open>The request handlers\<close>

lemma fold_max_ge: "a \<le> fold max (map uid rs) a"
proof (induction rs arbitrary: a)
  case Nil
  then show ?case by simp
next
  case (Cons x rs)
  have "a \<le> max (uid x) a" by simp
  also have "\<dots> \<le> fold max (map uid rs) (max (uid x) a)" by (rule Cons.IH)
  finally show ?case by simp
qed

lemma uid_le_fold_max: "r \<in> set rs \<Longrightarrow> uid r \<le> fold max (map uid rs) a"
proof (induction rs arbitrary: a)
  case Nil
  then show ?case by simp
next
  case (Cons x rs)
  show ?case
  proof (cases "r = x")
    case True
    have "uid x \<le> max (uid x) a" by simp
    also have "\<dots> \<le> fold max (map uid rs) (max (uid x) a)" by (rule fold_max_ge)
    finally show ?thesis using True by simp
  next
    case False
    then have "r \<in> set rs" using Cons.prems by simp
    then show ?thesis using Cons.IH by simp
  qed
qed

lemma find_append: "find P (xs @ ys) = (case find P xs of None \<Rightarrow> find P ys | Some x \<Rightarrow> Some x)"
  by (induction xs) auto

lemma next_user_id_fresh: "select_user (next_user_id s) s = None"
proof -
  have "uid r \<noteq> next_user_id s" if "r \<in> set (users s)" for r
    using uid_le_fold_max [OF that, of 0] by (simp add: next_user_id_def)
  then show ?thesis
    by (auto simp: select_user_def find_None_iff)
qed

lemma signup_creates_zero:
  "lifetime_of (next_user_id s) (snd (signup e p s)) =
     (if list_ex (\<lambda>r. email r = e) (users s) then None else Some 0)"
  using next_user_id_fresh [of s]
  by (auto simp: signup_def lifetime_of_def select_user_def find_append)

lemma find_map_stripe:
  "map_option blocked_count
     (find (\<lambda>r. uid r = u) (map (\<lambda>r. if uid r = v then r\<lparr>stripe_customer_id := c\<rparr> else r) rs))
   = map_option blocked_count (find (\<lambda>r. uid r = u) rs)"
  by (induction rs) auto

lemma lifetime_of_update_stripe [simp]:
  "lifetime_of u (update_stripe_customer_id v c s) = lifetime_of u s"
  by (simp add: lifetime_of_def select_user_def update_stripe_customer_id_def find_map_stripe)

lemma handle_keeps_lifetime:
  assumes "lifetime_of u s = Some b"
  shows "lifetime_of u (handle r s) = Some b"
proof (cases r)
  case (Signup e p)
  then show ?thesis using assms
    by (auto simp: signup_def lifetime_of_def select_user_def find_append)
next
  case (Connect_instagram v)
  then show ?thesis using assms
    by (simp add: connect_instagram_def insert_or_replace_account_def lifetime_of_def
          select_user_def Let_def)
next
  case (Confirm_payment v ok c d t)
  then show ?thesis using assms
    by (auto simp: confirm_payment_def lifetime_of_def select_user_def split: option.splits)
next
  case (Create_subscription v c)
  then show ?thesis using assms
    by (simp add: create_subscription_def split: option.splits)
qed

lemma handle_keeps_nonneg:
  assumes "all_nonneg s"
  shows "all_nonneg (handle r s)"
proof (cases r)
  case (Signup e p)
  then show ?thesis using assms by (auto simp: signup_def all_nonneg_def)
next
  case (Connect_instagram v)
  then show ?thesis using assms
    by (simp add: connect_instagram_def insert_or_replace_account_def all_nonneg_def Let_def)
next
  case (Confirm_payment v ok c d t)
  then show ?thesis using assms
    by (auto simp: confirm_payment_def all_nonneg_def split: option.splits)
next
  case (Create_subscription v c)
  then show ?thesis using assms
    by (auto simp: create_subscription_def update_stripe_customer_id_def all_nonneg_def
          list_all_iff split: option.splits)
qed

lemma grown_step:
  assumes "grown u b w"
  shows "grown u b (snd (auto_block_accounts L v w))"
proof -
  obtain b' where b': "lifetime_of u (txn w) = Some b'" "b \<le> b'"
    using assms by (auto simp: grown_def at_least_def split: option.splits)
  have "at_least b (lifetime_of u (txn (snd (auto_block_accounts L v w))))"
    using lifetime_step [OF b'(1), of L v] b'(2) by (auto simp: at_least_def)
  then show ?thesis
    using assms all_nonneg_step [of w L v] auto_block_accounts_cases(3) [of L v w]
    by (auto simp: grown_def)
qed

lemma grown_cycle: "grown u b w \<Longrightarrow> grown u b (cycle L w)"
  by (rule cycle_preserves [where P = "grown u b"])
     (simp_all add: grown_step, simp_all add: grown_def db_done_def logger_def)

lemma grown_run: "grown u b w \<Longrightarrow> grown u b (run L steps w)"
proof (induction steps arbitrary: w)
  case Nil
  then show ?case by simp
next
  case (Cons st steps)
  show ?case
  proof (cases st)
    case Cycle
    then show ?thesis using Cons.IH [OF grown_cycle [OF Cons.prems]] by simp
  next
    case (Request r)
    obtain b' where b': "lifetime_of u (disk w) = Some b'" "b \<le> b'"
      using Cons.prems by (auto simp: grown_def at_least_def split: option.splits)
    have "grown u b (w\<lparr>disk := handle r (disk w)\<rparr>)"
      using Cons.prems handle_keeps_lifetime [OF b'(1), of r] b'(2)
        handle_keeps_nonneg [of "disk w" r]
      by (simp add: grown_def at_least_def)
    then show ?thesis using Request Cons.IH by simp
  qed
qed

section \<open>The example inputs\<close>

lemma isoformat_at_time: "isoformat (at_time h m s) = ''2026-10-12''"
  by (simp add: isoformat_def at_time_def pad4_def pad2_def digit_char_def)

lemma after_20_minutes: "more_than_600_seconds (at_time 0 20 0) (at_time 0 0 0)"
  by (simp add: more_than_600_seconds_def microseconds_of_def toordinal_def at_time_def)

lemma world_of_simps [simp]:
  "disk (world_of s fs) = s" "txn (world_of s fs) = s" "faults (world_of s fs) = fs"
  "ticks (world_of s fs) = 0" "trace (world_of s fs) = []"
  "clock (world_of s fs) 0 = at_time 0 0 0" "clock (world_of s fs) (Suc n) = at_time 0 20 0"
  by (simp_all add: world_of_def)

lemma one_user_simps [simp]:
  "select_user 1 (one_user b c) =
     Some \<lparr>uid = 1, email = ''a@b.c'', password = ''$2b$12$'', stripe_customer_id = None,
           blocked_count = b\<rparr>"
  "select_daily 1 ''2026-10-12'' (one_user b c) = c"
  by (simp_all add: one_user_def select_user_def select_daily_def)

lemma two_accounts_simps:
  "select_paid_users two_accounts = [1]"
  "select_is_connected 1 two_accounts = Some False"
  "dashboard_is_connected 1 two_accounts"
  by (simp_all add: two_accounts_def select_paid_users_def select_is_connected_def
        dashboard_is_connected_def)

lemma two_users_simps:
  "select_paid_users two_users = [1, 2]"
  "select_is_connected 1 two_users = Some True"
  "select_is_connected 2 two_users = Some True"
  "select_daily u d two_users = None"
  by (simp_all add: two_users_def select_paid_users_def select_is_connected_def select_daily_def)

section \<open>The claims\<close>

text \<open>
  C1, as the code has it. The claim says that at a count of 100, 600 seconds or more after the
  last update, the counter is reset and the call increments it to 1. The guard of line 251,
  \<^verbatim>\<open>daily_count < 100\<close>, encloses the reset as well as the increment, so at the cap nothing is
  done, whatever the clock reads: when a call has brought the counter of the day from 99 to 100,
  the next call on the same day changes neither the committed database nor the connection's
  view and logs nothing, however much later it comes.
\<close>

theorem cap_reached_never_resets:
  assumes "faults w = []" and "select_user user_id (txn w) = Some u"
    and "isoformat (clock w (ticks w)) = today" and "isoformat (clock w (Suc (ticks w))) = today"
    and "select_daily user_id today (txn w) = Some 99"
  shows "select_daily user_id today
           (disk (snd (auto_block_accounts L user_id w))) = Some 100
       \<and> disk (snd (auto_block_accounts L user_id (snd (auto_block_accounts L user_id w))))
           = disk (snd (auto_block_accounts L user_id w))
       \<and> txn (snd (auto_block_accounts L user_id (snd (auto_block_accounts L user_id w))))
           = txn (snd (auto_block_accounts L user_id w))
       \<and> trace (snd (auto_block_accounts L user_id (snd (auto_block_accounts L user_id w))))
           = trace (snd (auto_block_accounts L user_id w))"
proof -
  let ?w1 = "snd (auto_block_accounts L user_id w)"
  note f = two_calls_from_below_cap [OF assms(1-5), of L, simplified]
  have cap: "select_daily user_id (isoformat (clock ?w1 (ticks ?w1))) (txn ?w1) = Some 100"
    using f(2,3,4) assms(4) by simp
  show ?thesis
    using at_cap [OF cap, of L] f(1,5) by simp
qed

text \<open>
  The witness: user 1 at 99, a first call at 00:00:00 and a second one at 00:20:00.
\<close>

theorem cap_reached_never_resets_witness:
  "\<forall>L. faults (world_of (one_user 99 (Some 99)) []) = []
     \<and> more_than_600_seconds (clock (world_of (one_user 99 (Some 99)) []) 1)
                               (clock (world_of (one_user 99 (Some 99)) []) 0)
     \<and> select_daily 1 ''2026-10-12''
         (disk (snd (auto_block_accounts L 1 (world_of (one_user 99 (Some 99)) [])))) = Some 100
     \<and> disk (snd (auto_block_accounts L 1
               (snd (auto_block_accounts L 1 (world_of (one_user 99 (Some 99)) [])))))
         = disk (snd (auto_block_accounts L 1 (world_of (one_user 99 (Some 99)) [])))"
proof
  fix L
  show "faults (world_of (one_user 99 (Some 99)) []) = []
     \<and> more_than_600_seconds (clock (world_of (one_user 99 (Some 99)) []) 1)
                               (clock (world_of (one_user 99 (Some 99)) []) 0)
     \<and> select_daily 1 ''2026-10-12''
         (disk (snd (auto_block_accounts L 1 (world_of (one_user 99 (Some 99)) [])))) = Some 100
     \<and> disk (snd (auto_block_accounts L 1
               (snd (auto_block_accounts L 1 (world_of (one_user 99 (Some 99)) [])))))
         = disk (snd (auto_block_accounts L 1 (world_of (one_user 99 (Some 99)) [])))"
    using cap_reached_never_resets [of "world_of (one_user 99 (Some 99)) []" 1
        "\<lparr>uid = 1, email = ''a@b.c'', password = ''$2b$12$'', stripe_customer_id = None,
          blocked_count = 99\<rparr>" "''2026-10-12''" L]
    by (simp add: isoformat_at_time after_20_minutes)
qed

text \<open>
  C1 fails as stated. User 1 has 99 blocks on 12 October 2026. The call at 00:00:00 stores 100;
  the call at 00:20:00, more than 600 seconds after that update, leaves the window count at 100
  (not 1) and the lifetime count at 100 (not 101) and logs no second increment.
\<close>

theorem cap_reached_counterexample:
  "\<forall>L. select_daily 1 ''2026-10-12''
         (disk (snd (auto_block_accounts L 1 (world_of (one_user 99 (Some 99)) [])))) = Some 100
     \<and> more_than_600_seconds (clock (world_of (one_user 99 (Some 99)) []) 1)
                               (clock (world_of (one_user 99 (Some 99)) []) 0)
     \<and> select_daily 1 ''2026-10-12''
         (disk (snd (auto_block_accounts L 1
                  (snd (auto_block_accounts L 1 (world_of (one_user 99 (Some 99)) []))))))
         = Some 100
     \<and> lifetime_of 1
         (disk (snd (auto_block_accounts L 1
                  (snd (auto_block_accounts L 1 (world_of (one_user 99 (Some 99)) []))))))
         = Some 100
     \<and> trace (snd (auto_block_accounts L 1
                  (snd (auto_block_accounts L 1 (world_of (one_user 99 (Some 99)) [])))))
         = [Info_auto_blocked 1 100 100]"
proof
  fix L
  let ?w = "world_of (one_user 99 (Some 99)) []"
  let ?w1 = "snd (auto_block_accounts L 1 ?w)"
  have f: "faults ?w1 = []" "clock ?w1 = clock ?w" "ticks ?w1 = Suc (ticks ?w)"
    "select_daily 1 ''2026-10-12'' (txn ?w1) = Some 100"
    "select_daily 1 ''2026-10-12'' (disk ?w1) = Some 100"
    "lifetime_of 1 (disk ?w1) = Some 100"
    "trace ?w1 = [Info_auto_blocked 1 100 100]"
    using two_calls_from_below_cap [of ?w 1 _ "''2026-10-12''" 99 L]
    by (simp_all add: isoformat_at_time)
  have cap: "select_daily 1 (isoformat (clock ?w1 (ticks ?w1))) (txn ?w1) = Some 100"
    using f by (simp add: isoformat_at_time)
  show "select_daily 1 ''2026-10-12'' (disk ?w1) = Some 100
     \<and> more_than_600_seconds (clock ?w 1) (clock ?w 0)
     \<and> select_daily 1 ''2026-10-12'' (disk (snd (auto_block_accounts L 1 ?w1))) = Some 100
     \<and> lifetime_of 1 (disk (snd (auto_block_accounts L 1 ?w1))) = Some 100
     \<and> trace (snd (auto_block_accounts L 1 ?w1)) = [Info_auto_blocked 1 100 100]"
    using at_cap [OF cap, of L] f by (simp add: after_20_minutes)
qed

text \<open>
  C2, the failing input. User 1 has a payment and two account rows; the first row that the
  query returns is not connected, the second one is. The dashboard (line 375) reports the user as
  connected, but the scheduler looks at the first row only (\<^verbatim>\<open>fetchone\<close>, lines 285 and 286):
  the turn skips the user, writes nothing and only sleeps.
\<close>

theorem first_account_row_decides:
  "\<forall>L. select_paid_users two_accounts = [1]
     \<and> dashboard_is_connected 1 two_accounts
     \<and> select_is_connected 1 two_accounts = Some False
     \<and> disk (cycle L (world_of two_accounts [])) = two_accounts
     \<and> trace (cycle L (world_of two_accounts [])) = [Sleep 6]"
  by (simp add: two_accounts_simps cycle_def connect_and_block_def connect_def close_def
        io_defs world_of_def)




text \<open>
  C4, the failing input. User 1 has 49 blocks on 12 October 2026. The call at 00:00:00 stores
  50. The call at 00:20:00 comes more than 600 seconds after that update, but the query reads
  \<^verbatim>\<open>last_updated\<close> as \<^verbatim>\<open>NULL\<close>, the reset of lines 253 to 260 is skipped, and the call
  stores 51 where the claim says 1.
\<close>

theorem no_reset_after_20_minutes:
  "\<forall>L. select_daily 1 ''2026-10-12''
         (disk (snd (auto_block_accounts L 1 (world_of (one_user 49 (Some 49)) [])))) = Some 50
     \<and> more_than_600_seconds (clock (world_of (one_user 49 (Some 49)) []) 1)
                               (clock (world_of (one_user 49 (Some 49)) []) 0)
     \<and> select_daily 1 ''2026-10-12''
         (disk (snd (auto_block_accounts L 1
                  (snd (auto_block_accounts L 1 (world_of (one_user 49 (Some 49)) []))))))
         = Some 51"
proof
  fix L
  let ?w = "world_of (one_user 49 (Some 49)) []"
  let ?w1 = "snd (auto_block_accounts L 1 ?w)"
  have f: "faults ?w1 = []" "clock ?w1 = clock ?w" "ticks ?w1 = Suc (ticks ?w)"
    "select_daily 1 ''2026-10-12'' (txn ?w1) = Some 50"
    "select_daily 1 ''2026-10-12'' (disk ?w1) = Some 50"
    "lifetime_of 1 (txn ?w1) = Some 50"
    using two_calls_from_below_cap [of ?w 1 _ "''2026-10-12''" 49 L]
    by (simp_all add: isoformat_at_time)
  obtain u1 where u1: "select_user 1 (txn ?w1) = Some u1"
    using f(6) by (auto simp: lifetime_of_def)
  have g: "select_daily 1 ''2026-10-12'' (disk (snd (auto_block_accounts L 1 ?w1))) = Some (50 + 1)"
    using two_calls_from_below_cap(5) [OF f(1) u1, of "''2026-10-12''" 50 L] f
    by (simp add: isoformat_at_time)
  show "select_daily 1 ''2026-10-12'' (disk ?w1) = Some 50
     \<and> more_than_600_seconds (clock ?w 1) (clock ?w 0)
     \<and> select_daily 1 ''2026-10-12'' (disk (snd (auto_block_accounts L 1 ?w1))) = Some 51"
    using f g by (simp add: after_20_minutes)
qed

text \<open>
  C5. When the window counter of the current day is 100, \<^verbatim>\<open>auto_block_accounts\<close> writes
  nothing: the committed database and the connection's view are what they were, so the
  lifetime counter and the window counter keep their values, and no increment is logged (the
  only line that can appear is the error line of a failed \<^verbatim>\<open>SELECT\<close>). This holds for every
  reading of the clock, hence also when the last update was less than 600 seconds ago.
\<close>

theorem cap_reached_no_mutation:
  assumes "select_daily user_id (isoformat (clock w (ticks w))) (txn w) = Some 100"
  shows "disk (snd (auto_block_accounts L user_id w)) = disk w
       \<and> txn (snd (auto_block_accounts L user_id w)) = txn w
       \<and> (trace (snd (auto_block_accounts L user_id w)) = trace w
          \<or> trace (snd (auto_block_accounts L user_id w)) = trace w @ [Error_auto_block_accounts])"
  using assms
  by (auto simp: auto_block_accounts_def try_block_no_reset io_defs Let_def
           split: option.splits list.splits)

text \<open>
  The witness: user 1 at 100 for the day.
\<close>

theorem cap_reached_no_mutation_witness:
  "\<forall>L. select_daily 1 (isoformat (clock (world_of (one_user 100 (Some 100)) [])
                                       (ticks (world_of (one_user 100 (Some 100)) []))))
          (txn (world_of (one_user 100 (Some 100)) [])) = Some 100
     \<and> disk (snd (auto_block_accounts L 1 (world_of (one_user 100 (Some 100)) [])))
         = one_user 100 (Some 100)
     \<and> txn (snd (auto_block_accounts L 1 (world_of (one_user 100 (Some 100)) [])))
         = one_user 100 (Some 100)"
  using cap_reached_no_mutation [of 1 "world_of (one_user 100 (Some 100)) []"]
  by (simp add: world_of_def isoformat_at_time select_daily_def one_user_def)



text \<open>
  C7. \<^verbatim>\<open>signup\<close> creates the user, under an id that no row has, with a lifetime count of 0
  (and creates nothing when the email is taken). For a user with lifetime count \<open>b\<close> in a
  database without negative counts: \<open>b\<close> is not negative; no request handler changes it; a call
  of \<^verbatim>\<open>auto_block_accounts\<close> leaves it or, for that user only, adds exactly 1; and after any
  sequence of turns of the scheduler and requests the committed count is at least \<open>b\<close> and no
  count is negative.
\<close>

theorem lifetime_counter_only_grows:
  assumes "txn w = disk w" and "all_nonneg (disk w)" and "lifetime_of u (disk w) = Some b"
  shows "lifetime_of (next_user_id s) (snd (signup e p s))
           = (if list_ex (\<lambda>r. email r = e) (users s) then None else Some 0)
       \<and> 0 \<le> b
       \<and> lifetime_of u (handle r (disk w)) = Some b
       \<and> (lifetime_of u (txn (snd (auto_block_accounts L v w))) = Some b
          \<or> (v = u \<and> lifetime_of u (txn (snd (auto_block_accounts L v w))) = Some (b + 1)))
       \<and> at_least b (lifetime_of u (disk (run L steps w)))
       \<and> all_nonneg (disk (run L steps w))"
proof -
  have nn: "0 \<le> b"
    using assms(2,3) by (auto simp: lifetime_of_def dest: select_user_nonneg)
  have "grown u b w"
    using assms by (simp add: grown_def at_least_def)
  then have "grown u b (run L steps w)" by (rule grown_run)
  then show ?thesis
    using nn signup_creates_zero [of s e p] handle_keeps_lifetime [OF assms(3), of r]
      lifetime_step [of u w b L v] assms
    by (simp add: grown_def)
qed

text \<open>
  The witness: user 1 with a lifetime count of 3; a turn, the signup of a second user, a turn.
\<close>

theorem lifetime_counter_only_grows_witness:
  "\<forall>L. txn (world_of (one_user 3 None) []) = disk (world_of (one_user 3 None) [])
     \<and> all_nonneg (disk (world_of (one_user 3 None) []))
     \<and> lifetime_of 1 (disk (world_of (one_user 3 None) [])) = Some 3
     \<and> next_user_id (one_user 3 None) = 2
     \<and> lifetime_of 2 (snd (signup ''g@h.i'' ''$2b$12$'' (one_user 3 None))) = Some 0
     \<and> lifetime_of 1 (handle (Create_subscription 1 ''cus_1'') (one_user 3 None)) = Some 3
     \<and> at_least 3 (lifetime_of 1
          (disk (run L [Cycle, Request (Signup ''g@h.i'' ''$2b$12$''), Cycle]
                  (world_of (one_user 3 None) []))))
     \<and> all_nonneg
          (disk (run L [Cycle, Request (Signup ''g@h.i'' ''$2b$12$''), Cycle]
                  (world_of (one_user 3 None) [])))"
proof
  fix L
  have n: "next_user_id (one_user 3 None) = 2"
    by (simp add: next_user_id_def one_user_def)
  show "txn (world_of (one_user 3 None) []) = disk (world_of (one_user 3 None) [])
     \<and> all_nonneg (disk (world_of (one_user 3 None) []))
     \<and> lifetime_of 1 (disk (world_of (one_user 3 None) [])) = Some 3
     \<and> next_user_id (one_user 3 None) = 2
     \<and> lifetime_of 2 (snd (signup ''g@h.i'' ''$2b$12$'' (one_user 3 None))) = Some 0
     \<and> lifetime_of 1 (handle (Create_subscription 1 ''cus_1'') (one_user 3 None)) = Some 3
     \<and> at_least 3 (lifetime_of 1
          (disk (run L [Cycle, Request (Signup ''g@h.i'' ''$2b$12$''), Cycle]
                  (world_of (one_user 3 None) []))))
     \<and> all_nonneg
          (disk (run L [Cycle, Request (Signup ''g@h.i'' ''$2b$12$''), Cycle]
                  (world_of (one_user 3 None) [])))"
    using lifetime_counter_only_grows [where w = "world_of (one_user 3 None) []" and u = 1
        and b = 3 and s = "one_user 3 None" and e = "''g@h.i''" and p = "''$2b$12$''"
        and r = "Create_subscription 1 ''cus_1''" and L = L and v = 1
        and steps = "[Cycle, Request (Signup ''g@h.i'' ''$2b$12$''), Cycle]"] n
    by (simp add: lifetime_of_def all_nonneg_def one_user_def select_user_def)
qed




text \<open>
  C10. For a row that \<^verbatim>\<open>auto_block_accounts\<close> wrote, the date is the ISO text of a day, and
  SQLite's \<^verbatim>\<open>datetime(date, 'unixepoch', 'localtime')\<close> of such a text is \<^verbatim>\<open>NULL\<close>; so lines
  253 to 260 do nothing. Hence the count of a day never decreases, in a call and on disk over
  any number of turns of the scheduler; and once it is 100, then as long as the clock stays on
  that day, the count stays 100, the lifetime counter keeps its value and no increment is
  logged for the user.
\<close>

theorem last_update_reads_back_NULL:
  assumes "txn w = disk w"
  shows "sqlite_datetime_unixepoch_localtime L (isoformat t) = None
       \<and> reset_after_10_minutes L v (isoformat t) c
            (sqlite_datetime_unixepoch_localtime L (isoformat t)) w = (Inr c, w)
       \<and> daily_count_of u d (txn w) \<le> daily_count_of u d (txn (snd (auto_block_accounts L v w)))
       \<and> daily_count_of u d (disk w) \<le> daily_count_of u d (disk (start_auto_blocking L n w))
       \<and> ((\<forall>i. isoformat (clock w i) = d) \<and> select_daily u d (disk w) = Some 100 \<longrightarrow>
            select_daily u d (disk (start_auto_blocking L n w)) = Some 100
          \<and> lifetime_of u (disk (start_auto_blocking L n w)) = lifetime_of u (disk w)
          \<and> filter (is_increment_of u) (trace (start_auto_blocking L n w))
              = filter (is_increment_of u) (trace w))"
proof -
  have a: "sqlite_datetime_unixepoch_localtime L (isoformat t) = None"
    by (rule datetime_of_isoformat_is_NULL)
  have b: "reset_after_10_minutes L v (isoformat t) c
            (sqlite_datetime_unixepoch_localtime L (isoformat t)) w = (Inr c, w)"
    by (simp add: a reset_skipped)
  have e: "select_daily u d (disk (start_auto_blocking L n w)) = Some 100
          \<and> lifetime_of u (disk (start_auto_blocking L n w)) = lifetime_of u (disk w)
          \<and> filter (is_increment_of u) (trace (start_auto_blocking L n w))
              = filter (is_increment_of u) (trace w)"
    if h: "\<forall>i. isoformat (clock w i) = d" "select_daily u d (disk w) = Some 100"
  proof -
    have "stuck u d (lifetime_of u (disk w)) (filter (is_increment_of u) (trace w)) w"
      using h assms by (simp add: stuck_def)
    then have "stuck u d (lifetime_of u (disk w)) (filter (is_increment_of u) (trace w))
                 (start_auto_blocking L n w)"
      by (rule stuck_forever)
    then show ?thesis by (simp add: stuck_def)
  qed
  show ?thesis
    using a b daily_count_grows [of u d w L v] daily_count_of_disk_grows [OF assms, of u d L n] e
    by blast
qed

text \<open>
  The witness: user 1 at 100 for the day, and 200 turns of the scheduler.
\<close>

theorem last_update_reads_back_NULL_witness:
  "\<forall>L. txn (world_of (one_user 100 (Some 100)) []) = disk (world_of (one_user 100 (Some 100)) [])
     \<and> (\<forall>i. isoformat (clock (world_of (one_user 100 (Some 100)) []) i) = ''2026-10-12'')
     \<and> select_daily 1 ''2026-10-12'' (disk (world_of (one_user 100 (Some 100)) [])) = Some 100
     \<and> sqlite_datetime_unixepoch_localtime L ''2026-10-12'' = None
     \<and> select_daily 1 ''2026-10-12''
          (disk (start_auto_blocking L 200 (world_of (one_user 100 (Some 100)) []))) = Some 100
     \<and> lifetime_of 1 (disk (start_auto_blocking L 200 (world_of (one_user 100 (Some 100)) [])))
          = Some 100
     \<and> filter (is_increment_of 1)
          (trace (start_auto_blocking L 200 (world_of (one_user 100 (Some 100)) []))) = []"
proof
  fix L
  have days: "\<forall>i. isoformat (clock (world_of (one_user 100 (Some 100)) []) i) = ''2026-10-12''"
    by (simp add: world_of_def isoformat_at_time)
  show "txn (world_of (one_user 100 (Some 100)) []) = disk (world_of (one_user 100 (Some 100)) [])
     \<and> (\<forall>i. isoformat (clock (world_of (one_user 100 (Some 100)) []) i) = ''2026-10-12'')
     \<and> select_daily 1 ''2026-10-12'' (disk (world_of (one_user 100 (Some 100)) [])) = Some 100
     \<and> sqlite_datetime_unixepoch_localtime L ''2026-10-12'' = None
     \<and> select_daily 1 ''2026-10-12''
          (disk (start_auto_blocking L 200 (world_of (one_user 100 (Some 100)) []))) = Some 100
     \<and> lifetime_of 1 (disk (start_auto_blocking L 200 (world_of (one_user 100 (Some 100)) [])))
          = Some 100
     \<and> filter (is_increment_of 1)
          (trace (start_auto_blocking L 200 (world_of (one_user 100 (Some 100)) []))) = []"
    using days
      last_update_reads_back_NULL [where w = "world_of (one_user 100 (Some 100)) []" and L = L
        and t = "at_time 0 0 0" and v = 1 and c = 0 and u = 1 and d = "''2026-10-12''"
        and n = 200]
    by (simp add: isoformat_at_time lifetime_of_def)
qed

end
